theory Spec2Isabelle
  imports Complex_Main "HOL-Library.Word"
begin

section \<open>Numbers and buffers\<close>

text \<open>
  The program is JavaScript. Its numbers are modelled as exact reals: every theorem below
  is about the arithmetic the code writes down, not about the rounding of IEEE doubles
  (or of the \<open>Float32Array\<close> that stores the amplitudes). The one non-real value the
  code can produce from well-formed buffers, \<open>NaN\<close>, is modelled as \<open>None\<close> in a
  \<open>real option\<close>. The analyser's buffers are \<open>Uint8Array\<close>s: lists of 8-bit words.
\<close>

type_synonym uint8array = "8 word list"

type_synonym jsnum = "real option"

definition sampleValue :: "8 word \<Rightarrow> real" where
  "sampleValue s = real (unat s)"

text \<open>\<open>arr[j]\<close>: an index outside the array reads \<open>undefined\<close>, which arithmetic
  turns into \<open>NaN\<close>.\<close>

definition readAt :: "uint8array \<Rightarrow> nat \<Rightarrow> jsnum" where
  "readAt arr j = (if j < length arr then Some (sampleValue (arr ! j)) else None)"

definition jsAdd :: "jsnum \<Rightarrow> jsnum \<Rightarrow> jsnum" where
  "jsAdd a b = (case a of None \<Rightarrow> None | Some x \<Rightarrow> (case b of None \<Rightarrow> None | Some y \<Rightarrow> Some (x + y)))"

section \<open>Utilities\<close>

definition lerp :: "real \<Rightarrow> real \<Rightarrow> real \<Rightarrow> real" where
  "lerp a b t = a + (b - a) * t"

definition clamp :: "real \<Rightarrow> real \<Rightarrow> real \<Rightarrow> real" where
  "clamp v mn mx = max mn (min mx v)"

definition texturedNoise :: "real \<Rightarrow> real \<Rightarrow> real" where
  "texturedNoise angle loudness =
     (let wobble = sin (angle * 7.0) * 0.9 + sin (angle * 13.0 + 0.7) * 0.55
      in wobble * (1.5 + loudness * 6))"

definition hash01 :: "real \<Rightarrow> real" where
  "hash01 x =
     (let s = sin (x * 12.9898 + 78.233) * 43758.5453
      in s - of_int \<lfloor>s\<rfloor>)"

section \<open>Audio feature extractor\<close>

subsection \<open>computeBands\<close>

text \<open>The inner loop \<open>for (j = start; j < end; j++) sum += freqArray[j]\<close>.\<close>

function bandSum :: "uint8array \<Rightarrow> nat \<Rightarrow> nat \<Rightarrow> jsnum \<Rightarrow> jsnum" where
  "bandSum freqArray j e sum0 =
     (if j < e then bandSum freqArray (Suc j) e (jsAdd sum0 (readAt freqArray j)) else sum0)"
  by pat_completeness auto
termination
  by (relation "measure (\<lambda>(freqArray, j, e, sum0). e - j)") auto

declare bandSum.simps [simp del]

definition bandSize :: "uint8array \<Rightarrow> nat \<Rightarrow> nat" where
  "bandSize freqArray bandCount = length freqArray div bandCount"

definition bandStart :: "uint8array \<Rightarrow> nat \<Rightarrow> nat \<Rightarrow> nat" where
  "bandStart freqArray bandCount i = i * bandSize freqArray bandCount"

definition bandEnd :: "uint8array \<Rightarrow> nat \<Rightarrow> nat \<Rightarrow> nat" where
  "bandEnd freqArray bandCount i =
     (if i = bandCount - 1 then length freqArray
      else bandStart freqArray bandCount i + bandSize freqArray bandCount)"

text \<open>The denominator \<open>end - start || 1\<close>; the difference is taken in the integers, as
  JavaScript takes it.\<close>

definition bandDenominator :: "uint8array \<Rightarrow> nat \<Rightarrow> nat \<Rightarrow> int" where
  "bandDenominator freqArray bandCount i =
     (let d = int (bandEnd freqArray bandCount i) - int (bandStart freqArray bandCount i)
      in if d = 0 then 1 else d)"

definition bandValue :: "uint8array \<Rightarrow> nat \<Rightarrow> nat \<Rightarrow> jsnum" where
  "bandValue freqArray bandCount i =
     (case bandSum freqArray (bandStart freqArray bandCount i) (bandEnd freqArray bandCount i) (Some 0) of
        None \<Rightarrow> None
      | Some sum0 \<Rightarrow> Some (sum0 / of_int (bandDenominator freqArray bandCount i)))"

text \<open>The outer loop \<open>for (i = 0; i < bandCount; i++) bands[i] = ...\<close>.\<close>

function bandsLoop :: "uint8array \<Rightarrow> nat \<Rightarrow> nat \<Rightarrow> jsnum list \<Rightarrow> jsnum list" where
  "bandsLoop freqArray bandCount i bands =
     (if i < bandCount
      then bandsLoop freqArray bandCount (Suc i) (bands[i := bandValue freqArray bandCount i])
      else bands)"
  by pat_completeness auto
termination
  by (relation "measure (\<lambda>(freqArray, bandCount, i, bands). bandCount - i)") auto

declare bandsLoop.simps [simp del]

text \<open>\<open>new Array(bandCount)\<close> accepts exactly the integers from \<open>0\<close> to \<open>2^32 - 1\<close> and
  raises a \<open>RangeError\<close> on every other number, so the band count is a 32-bit word and the
  loops run on its value. \<open>bandSize\<close> is only read inside the loop, so for
  \<open>bandCount = 0\<close> (where JavaScript computes \<open>Infinity\<close> or \<open>NaN\<close> for it) the result is
  the empty array.\<close>

definition computeBands :: "uint8array \<Rightarrow> 32 word \<Rightarrow> jsnum list" where
  "computeBands freqArray bandCount =
     bandsLoop freqArray (unat bandCount) 0 (replicate (unat bandCount) (Some 0))"

subsection \<open>computeRms\<close>

function sumSquaresLoop :: "uint8array \<Rightarrow> nat \<Rightarrow> real \<Rightarrow> real" where
  "sumSquaresLoop timeArray i sumSquares =
     (if i < length timeArray
      then (let v = (sampleValue (timeArray ! i) - 128) / 128
            in sumSquaresLoop timeArray (Suc i) (sumSquares + v * v))
      else sumSquares)"
  by pat_completeness auto
termination
  by (relation "measure (\<lambda>(timeArray, i, sumSquares). length timeArray - i)") auto

declare sumSquaresLoop.simps [simp del]

text \<open>On the empty array the loop leaves \<open>sumSquares = 0\<close> and \<open>0 / 0\<close> is \<open>NaN\<close>,
  which \<open>Math.sqrt\<close> returns unchanged.\<close>

definition computeRms :: "uint8array \<Rightarrow> jsnum" where
  "computeRms timeArray =
     (let sumSquares = sumSquaresLoop timeArray 0 0;
          len = length timeArray
      in if len = 0 then None else Some (sqrt (sumSquares / real len)))"

subsection \<open>The groups and the mean, as the specification words them\<close>

definition specGroup :: "uint8array \<Rightarrow> nat \<Rightarrow> nat \<Rightarrow> 8 word list" where
  "specGroup spectrum bandCount i =
     (let groupSize = length spectrum div bandCount
      in if i = bandCount - 1 then drop (i * groupSize) spectrum
         else take groupSize (drop (i * groupSize) spectrum))"

definition arithmeticMean :: "8 word list \<Rightarrow> real" where
  "arithmeticMean g = sum_list (map sampleValue g) / real (length g)"

definition centred :: "8 word \<Rightarrow> real" where
  "centred s = (sampleValue s - 128) / 128"

definition specRms :: "uint8array \<Rightarrow> real" where
  "specRms w = sqrt (sum_list (map (\<lambda>s. (centred s)\<^sup>2) w) / real (length w))"

definition alternating :: "nat \<Rightarrow> uint8array" where
  "alternating n = map (\<lambda>i. if even i then 0 else 255) [0..<n]"


subsection \<open>getFeatures\<close>

text \<open>The object \<open>getFeatures\<close> returns. A missing buffer is \<open>null\<close> (\<open>None\<close>); the
  loudness is a JavaScript number, \<open>NaN\<close> when the waveform is empty.\<close>

record features =
  freq :: "uint8array option"
  time :: "uint8array option"
  bands :: "jsnum list option"
  loudness :: jsnum

text \<open>The two arguments are what \<open>getFrequencyData\<close> and \<open>getTimeDomainData\<close> read from
  the analyser node: \<open>None\<close> when there is no analyser. A typed array is truthy even when
  it is empty, so only \<open>null\<close> takes the first branch.\<close>

definition getFeatures :: "uint8array option \<Rightarrow> uint8array option \<Rightarrow> features" where
  "getFeatures freqData timeData =
     (case freqData of
        None \<Rightarrow> \<lparr>freq = None, time = None, bands = None, loudness = Some 0\<rparr>
      | Some f \<Rightarrow>
          (case timeData of
             None \<Rightarrow> \<lparr>freq = None, time = None, bands = None, loudness = Some 0\<rparr>
           | Some t \<Rightarrow>
               \<lparr>freq = Some f, time = Some t, bands = Some (computeBands f 5),
                loudness = computeRms t\<rparr>))"

section \<open>Scatter ring animation engine\<close>

subsection \<open>State and configuration\<close>

record scatterState =
  segments :: nat
  lineAmplitude :: "real list"
  idleDotOffsets :: "real list"
  idleAnimationTime :: real
  audioPresence :: real
  smoothedGlowRadius :: real
  lastFrameTime :: real

text \<open>The variables \<open>createVisualizer\<close> closes over. The audio source is not stored: what
  it returns on a frame is an input of that frame.\<close>

record visualizer =
  isMobile :: bool
  sensitivity :: real
  smoothing :: real
  idleSpeed :: real
  radialScatterMultiplier :: real
  tangentialScatterMultiplier :: real
  scatterState :: scatterState

text \<open>\<open>isMobile\<close> is what the user-agent test finds, \<open>startTime\<close> what
  \<open>performance.now()\<close> returns at construction.\<close>

definition createVisualizer :: "bool \<Rightarrow> real \<Rightarrow> visualizer" where
  "createVisualizer mobile startTime =
     (let segs = (if mobile then 100 else 140)
      in \<lparr>isMobile = mobile,
          sensitivity = 7.2,
          smoothing = 1.4,
          idleSpeed = 5.0,
          radialScatterMultiplier = 1.0,
          tangentialScatterMultiplier = 0.4,
          scatterState =
            \<lparr>segments = segs,
             lineAmplitude = replicate segs 0,
             idleDotOffsets = replicate (segs * 20) 0,
             idleAnimationTime = 0,
             audioPresence = 0,
             smoothedGlowRadius = 0,
             lastFrameTime = startTime\<rparr>\<rparr>)"

definition setSensitivity :: "visualizer \<Rightarrow> real \<Rightarrow> visualizer" where
  "setSensitivity v value = v\<lparr>sensitivity := value\<rparr>"

definition setSmoothing :: "visualizer \<Rightarrow> real \<Rightarrow> visualizer" where
  "setSmoothing v value = v\<lparr>smoothing := value\<rparr>"

definition setIdleSpeed :: "visualizer \<Rightarrow> real \<Rightarrow> visualizer" where
  "setIdleSpeed v value = v\<lparr>idleSpeed := value\<rparr>"

definition setRadialScatter :: "visualizer \<Rightarrow> real \<Rightarrow> visualizer" where
  "setRadialScatter v value = v\<lparr>radialScatterMultiplier := value\<rparr>"

definition setTangentialScatter :: "visualizer \<Rightarrow> real \<Rightarrow> visualizer" where
  "setTangentialScatter v value = v\<lparr>tangentialScatterMultiplier := value\<rparr>"

subsection \<open>Reading the features\<close>

text \<open>\<open>features?.time\<close> and \<open>features?.loudness || 0\<close>: a missing object, a zero and a
  \<open>NaN\<close> all give \<open>0\<close>.\<close>

definition featuresTime :: "features option \<Rightarrow> uint8array option" where
  "featuresTime feats = (case feats of None \<Rightarrow> None | Some f \<Rightarrow> time f)"

definition featuresLoudness :: "features option \<Rightarrow> real" where
  "featuresLoudness feats =
     (case feats of
        None \<Rightarrow> 0
      | Some f \<Rightarrow> (case loudness f of None \<Rightarrow> 0 | Some l \<Rightarrow> if l = 0 then 0 else l))"

subsection \<open>Presence, ease and amplitude\<close>

text \<open>The first half of \<open>drawScatterRing\<close>, one definition for each value it computes before
  the segment loop.\<close>

definition audioThreshold :: "bool \<Rightarrow> real" where
  "audioThreshold mobile = (if mobile then 0.01 else 0.02)"

definition timeVariationThreshold :: "bool \<Rightarrow> real" where
  "timeVariationThreshold mobile = (if mobile then 0.03 else 0.05)"

definition hasAudioRaw :: "bool \<Rightarrow> features option \<Rightarrow> bool" where
  "hasAudioRaw mobile feats =
     (featuresLoudness feats > audioThreshold mobile
      \<or> (case featuresTime feats of
            None \<Rightarrow> False
          | Some t \<Rightarrow>
              length t > 0
              \<and> list_ex (\<lambda>s. \<bar>sampleValue s / 255 - 0.5\<bar> > timeVariationThreshold mobile) t))"

definition enterSpeed :: "bool \<Rightarrow> real" where
  "enterSpeed mobile = (if mobile then 0.15 else 0.08)"

definition exitSpeed :: "bool \<Rightarrow> real" where
  "exitSpeed mobile = (if mobile then 0.08 else 0.04)"

definition presenceStep :: "bool \<Rightarrow> bool \<Rightarrow> real \<Rightarrow> real" where
  "presenceStep mobile hasAudio presence =
     (let targetPresence = (if hasAudio then 1.0 else 0.0);
          transitionSpeed = (if targetPresence > presence then enterSpeed mobile else exitSpeed mobile)
      in lerp presence targetPresence transitionSpeed)"

definition easeFactor :: "bool \<Rightarrow> real \<Rightarrow> real \<Rightarrow> real" where
  "easeFactor mobile smooth loud =
     (let mobileSmoothingReduction = (if mobile then 0.7 else 1.0);
          normalizedSmoothing = clamp (smooth / 3) 0 1 * mobileSmoothingReduction;
          baseEase = lerp 0.3 0.01 normalizedSmoothing
      in clamp (baseEase + loud * 0.15) 0.03 0.35)"

definition maxAmplitude :: "real \<Rightarrow> real" where
  "maxAmplitude radius = radius * 0.45"

text \<open>The waveform sample of segment \<open>i\<close>: nearest index below, modulo the buffer length;
  the index is below the length, so the read is in range.\<close>

definition segmentSample :: "features option \<Rightarrow> nat \<Rightarrow> nat \<Rightarrow> real" where
  "segmentSample feats segs i =
     (case featuresTime feats of
        None \<Rightarrow> 0.5
      | Some t \<Rightarrow>
          if length t > 0
          then (let tt = real i / real segs;
                    idx = nat \<lfloor>tt * real (length t)\<rfloor> mod length t
                in sampleValue (t ! idx) / 255)
          else 0.5)"

definition segmentTarget :: "visualizer \<Rightarrow> real \<Rightarrow> features option \<Rightarrow> nat \<Rightarrow> real" where
  "segmentTarget v radius feats i =
     (let mapped = (segmentSample feats (segments (scatterState v)) i - 0.5) * 2;
          mobileSensitivityBoost = (if isMobile v then 1.3 else 1.0)
      in mapped * sensitivity v * maxAmplitude radius * audioPresence (scatterState v)
           * mobileSensitivityBoost)"


subsection \<open>Segment geometry\<close>

text \<open>What the body of the segment loop computes for segment \<open>i\<close> once its amplitude
  \<open>amp\<close> (the new \<open>lineAmplitude[i]\<close>) is stored. \<open>maxAmplitude || 1\<close> replaces a zero
  divisor by one.\<close>

record segmentGeometry =
  seg_x0 :: real
  seg_y0 :: real
  seg_x1 :: real
  seg_y1 :: real
  seg_nx :: real
  seg_ny :: real
  seg_tx :: real
  seg_ty :: real
  seg_amp01 :: real
  seg_radialScatterAmount :: real
  seg_tangentialScatterAmount :: real

definition segmentGeometryOf ::
  "visualizer \<Rightarrow> real \<Rightarrow> real \<Rightarrow> nat \<Rightarrow> real \<Rightarrow> segmentGeometry" where
  "segmentGeometryOf v radius loud i amp =
     (let presence = audioPresence (scatterState v);
          innerRadius = radius * 0.78;
          segmentBaseLength = radius * 0.55;
          t = real i / real (segments (scatterState v));
          angle = t * pi * 2;
          uniformVariation = 1.0;
          variedVariation = hash01 (real i * 47.13) * 0.4 + 0.8;
          lineLengthVariation = lerp uniformVariation variedVariation presence;
          tex = texturedNoise angle loud * presence;
          amplitudeGrowth = \<bar>amp\<bar> * 0.62 * presence;
          len = segmentBaseLength * lineLengthVariation + amplitudeGrowth + tex * 0.45;
          r0 = innerRadius + tex * 0.25 * presence;
          r1 = r0 + len;
          nx = cos angle;
          ny = sin angle;
          mobileScatterBoost = (if isMobile v then 1.4 else 1.0);
          amp01 = clamp (\<bar>amp\<bar> / (if maxAmplitude radius = 0 then 1 else maxAmplitude radius)) 0 1;
          radialScatterBase = clamp (1.5 + amp01 * 8 + loud * 12) 1.5 15 * mobileScatterBoost;
          tangentialScatterBase = clamp (2.0 + amp01 * 10 + loud * 16) 2 18 * mobileScatterBoost
      in \<lparr>seg_x0 = cos angle * r0,
          seg_y0 = sin angle * r0,
          seg_x1 = cos angle * r1,
          seg_y1 = sin angle * r1,
          seg_nx = nx,
          seg_ny = ny,
          seg_tx = - ny,
          seg_ty = nx,
          seg_amp01 = amp01,
          seg_radialScatterAmount = radialScatterBase * presence * radialScatterMultiplier v,
          seg_tangentialScatterAmount = tangentialScatterBase * presence * tangentialScatterMultiplier v\<rparr>)"

subsection \<open>Dot placement\<close>

definition dotCount :: nat where
  "dotCount = 20"

definition seed :: "nat \<Rightarrow> nat \<Rightarrow> real" where
  "seed i d = hash01 (real i * 97.31 + real d * 31.77)"

definition seed2 :: "nat \<Rightarrow> nat \<Rightarrow> real" where
  "seed2 i d = hash01 (real i * 11.13 + real d * 73.91)"

definition dotU :: "real \<Rightarrow> nat \<Rightarrow> nat \<Rightarrow> real" where
  "dotU presence i d =
     (let spacingRangeQuiet = 0.92;
          spacingRangeAudio = 0.74;
          spacingStartQuiet = 0.04;
          spacingStartAudio = 0.18;
          spacingRange = lerp spacingRangeQuiet spacingRangeAudio presence;
          spacingStart = lerp spacingStartQuiet spacingStartAudio presence;
          uBase = spacingStart + spacingRange * (real d / max 1 (real dotCount - 1));
          uWobble = (seed i d - 0.5) * 0.08 * presence
      in clamp (uBase + uWobble) 0.01 0.99)"

definition idleRadialOffset :: "visualizer \<Rightarrow> nat \<Rightarrow> nat \<Rightarrow> real" where
  "idleRadialOffset v i d =
     (let phase = hash01 (real i * 137.5 + real d * 23.7) * pi * 2;
          baseSpeedRange = (if isMobile v then (0.5, 1.0) else (0.3, 0.7));
          baseSpeed = fst baseSpeedRange
                      + hash01 (real i * 67.3 + real d * 41.9) * (snd baseSpeedRange - fst baseSpeedRange);
          speed = baseSpeed * idleSpeed v;
          amplitude = 2.5 + hash01 (real i * 89.1 + real d * 19.3) * 3.5
      in sin (idleAnimationTime (scatterState v) * speed + phase) * amplitude)"

definition audioRadialScatter :: "segmentGeometry \<Rightarrow> nat \<Rightarrow> nat \<Rightarrow> real" where
  "audioRadialScatter g i d = (seed2 i d - 0.5) * seg_radialScatterAmount g * 0.55"

definition radialScatter :: "visualizer \<Rightarrow> segmentGeometry \<Rightarrow> nat \<Rightarrow> nat \<Rightarrow> real" where
  "radialScatter v g i d =
     lerp (idleRadialOffset v i d) (audioRadialScatter g i d) (audioPresence (scatterState v))"

definition tangentialScatter :: "segmentGeometry \<Rightarrow> nat \<Rightarrow> nat \<Rightarrow> real" where
  "tangentialScatter g i d = (seed i d - 0.5) * seg_tangentialScatterAmount g"

text \<open>One dot, as it is handed to \<open>ctx.arc(px, py, size, ...)\<close>, in the coordinates
  translated to the centre of the ring.\<close>

record dot =
  px :: real
  py :: real
  size :: real

definition dotAt :: "visualizer \<Rightarrow> segmentGeometry \<Rightarrow> real \<Rightarrow> nat \<Rightarrow> nat \<Rightarrow> dot" where
  "dotAt v g loud i d =
     (let presence = audioPresence (scatterState v);
          u = dotU presence i d;
          mobileSizeBoost = (if isMobile v then 1.3 else 1.0);
          baseSizeIdle = 1.2 * mobileSizeBoost;
          baseSizeAudio = 0.8 * mobileSizeBoost;
          baseSize = lerp baseSizeIdle baseSizeAudio presence;
          sizeVariation = (seg_amp01 g * 2.2 + loud * 1.8) * presence * mobileSizeBoost
      in \<lparr>px = lerp (seg_x0 g) (seg_x1 g) u + seg_nx g * radialScatter v g i d
                 + seg_tx g * tangentialScatter g i d,
          py = lerp (seg_y0 g) (seg_y1 g) u + seg_ny g * radialScatter v g i d
                 + seg_ty g * tangentialScatter g i d,
          size = baseSize + sizeVariation\<rparr>)"

subsection \<open>drawScatterRing\<close>

text \<open>The segment loop. It writes \<open>lineAmplitude[i]\<close> and draws the dots of segment \<open>i\<close>
  from the value just written. \<open>v\<close> already holds the new \<open>audioPresence\<close>. The array
  has \<open>segments\<close> entries from construction on, so every index the loop uses is inside it;
  what is proved about the dots states this as its assumption.\<close>

function segmentLoop ::
  "visualizer \<Rightarrow> real \<Rightarrow> features option \<Rightarrow> real \<Rightarrow> nat \<Rightarrow> real list \<times> dot list
     \<Rightarrow> real list \<times> dot list" where
  "segmentLoop v radius feats ease i (amps, dots) =
     (if i < segments (scatterState v)
      then (let target = segmentTarget v radius feats i;
                amps' = amps[i := lerp (amps ! i) target ease];
                g = segmentGeometryOf v radius (featuresLoudness feats) i (amps' ! i);
                newDots = map (dotAt v g (featuresLoudness feats) i) [0..<dotCount]
            in segmentLoop v radius feats ease (Suc i) (amps', dots @ newDots))
      else (amps, dots))"
  by pat_completeness auto
termination
  by (relation "measure (\<lambda>(v, radius, feats, ease, i, acc). segments (scatterState v) - i)") auto

declare segmentLoop.simps [simp del]

definition drawScatterRing ::
  "visualizer \<Rightarrow> real \<Rightarrow> real \<Rightarrow> real \<Rightarrow> features option \<Rightarrow> visualizer \<times> dot list" where
  "drawScatterRing v cx cy radius feats =
     (let loud = featuresLoudness feats;
          st = scatterState v;
          presence = presenceStep (isMobile v) (hasAudioRaw (isMobile v) feats) (audioPresence st);
          v1 = v\<lparr>scatterState := st\<lparr>audioPresence := presence\<rparr>\<rparr>;
          ease = easeFactor (isMobile v) (smoothing v) loud;
          result = segmentLoop v1 radius feats ease 0 (lineAmplitude st, [])
      in (v1\<lparr>scatterState := (scatterState v1)\<lparr>lineAmplitude := fst result\<rparr>\<rparr>, snd result))"

subsection \<open>drawGlow and drawFrame\<close>

text \<open>Both draw on the canvas; what is kept of the drawing is the geometry handed to it.\<close>

definition drawGlow :: "visualizer \<Rightarrow> real \<Rightarrow> real \<Rightarrow> visualizer" where
  "drawGlow v radius loud =
     (let maxGlow = radius * 1.3;
          targetGlowRadius = radius + loud * sensitivity v * maxGlow;
          glowEase = 0.06;
          st = scatterState v
      in v\<lparr>scatterState :=
             st\<lparr>smoothedGlowRadius := lerp (smoothedGlowRadius st) targetGlowRadius glowEase\<rparr>\<rparr>)"

text \<open>What one frame reads from outside: the canvas rectangle, the features of the audio
  source (\<open>None\<close> when no source is set) and \<open>performance.now()\<close>.\<close>

record frameInput =
  rectWidth :: real
  rectHeight :: real
  audioFeatures :: "features option"
  now :: real

record frameGeometry =
  centreX :: real
  centreY :: real
  glowRadius :: real
  dots :: "dot list"

definition animationSpeed :: "bool \<Rightarrow> real" where
  "animationSpeed mobile = (if mobile then 1.5 else 1.0)"

definition baseRadiusOf :: "bool \<Rightarrow> frameInput \<Rightarrow> real" where
  "baseRadiusOf mobile inp =
     (let longestEdge = max (rectWidth inp) (rectHeight inp);
          visualizerDiameter = (if mobile then longestEdge * 0.4 else longestEdge * 0.25)
      in visualizerDiameter * 0.35)"

definition drawFrame :: "visualizer \<Rightarrow> frameInput \<Rightarrow> visualizer \<times> frameGeometry" where
  "drawFrame v inp =
     (let cx = rectWidth inp / 2;
          cy = rectHeight inp / 2;
          baseRadius = baseRadiusOf (isMobile v) inp;
          feats = audioFeatures inp;
          loud = featuresLoudness feats;
          st = scatterState v;
          deltaTime = (now inp - lastFrameTime st) / 1000;
          st1 = st\<lparr>lastFrameTime := now inp,
                   idleAnimationTime := idleAnimationTime st + deltaTime * animationSpeed (isMobile v)\<rparr>;
          st2 = (if smoothedGlowRadius st1 = 0 then st1\<lparr>smoothedGlowRadius := baseRadius\<rparr> else st1);
          v2 = drawGlow (v\<lparr>scatterState := st2\<rparr>) baseRadius loud;
          ring = drawScatterRing v2 cx cy (baseRadius * 1.25) feats
      in (fst ring,
          \<lparr>centreX = cx, centreY = cy,
           glowRadius = smoothedGlowRadius (scatterState v2),
           dots = snd ring\<rparr>))"

text \<open>A run of frames, one \<open>drawFrame\<close> per display refresh.\<close>

fun runFrames :: "visualizer \<Rightarrow> frameInput list \<Rightarrow> visualizer" where
  "runFrames v [] = v"
| "runFrames v (inp # inps) = runFrames (fst (drawFrame v inp)) inps"



subsection \<open>Notions used to state the properties\<close>

text \<open>The visualizer the segment loop of a frame runs with: the state the frame leaves,
  with the amplitudes it started from.\<close>

definition ringView :: "visualizer \<Rightarrow> frameInput \<Rightarrow> visualizer" where
  "ringView v inp = (fst (drawFrame v inp))\<lparr>scatterState :=
      (scatterState (fst (drawFrame v inp)))\<lparr>lineAmplitude := lineAmplitude (scatterState v)\<rparr>\<rparr>"

text \<open>The radius \<open>drawFrame\<close> passes to \<open>drawScatterRing\<close>.\<close>

definition ringRadius :: "bool \<Rightarrow> frameInput \<Rightarrow> real" where
  "ringRadius mobile inp = baseRadiusOf mobile inp * 1.25"

definition bounded :: "real \<Rightarrow> visualizer \<Rightarrow> bool" where
  "bounded B v \<longleftrightarrow>
     list_all (\<lambda>a. \<bar>a\<bar> \<le> B) (lineAmplitude (scatterState v))
     \<and> 0 \<le> audioPresence (scatterState v) \<and> audioPresence (scatterState v) \<le> 1"


text \<open>A frame on a 1000 by 800 canvas while the microphone is driven to its maximum: all
  1024 time-domain samples are 255.\<close>

definition loudFrame :: "real \<Rightarrow> frameInput" where
  "loudFrame t =
     \<lparr>rectWidth = 1000, rectHeight = 800,
      audioFeatures = Some (getFeatures (Some (replicate 512 255)) (Some (replicate 1024 255))),
      now = t\<rparr>"

text \<open>A frame with no audio source attached.\<close>

definition quietFrame :: "real \<Rightarrow> frameInput" where
  "quietFrame t = \<lparr>rectWidth = 1000, rectHeight = 800, audioFeatures = None, now = t\<rparr>"

text \<open>The desktop profile with the configuration \<open>createVisualizer\<close> starts from.\<close>

definition desktopDefault :: "visualizer \<Rightarrow> bool" where
  "desktopDefault v \<longleftrightarrow> \<not> isMobile v \<and> sensitivity v = 7.2 \<and> smoothing v = 1.4
     \<and> segments (scatterState v) = 140 \<and> length (lineAmplitude (scatterState v)) = 140"


section \<open>Properties\<close>


subsection \<open>computeBands: the loops in closed form\<close>


lemma jsAdd_Some [simp]: "jsAdd (Some x) (Some y) = Some (x + y)"
  by (simp add: jsAdd_def)

lemma bandSum_in_range:
  "j \<le> e \<Longrightarrow> e \<le> length arr \<Longrightarrow>
   bandSum arr j e (Some s) = Some (s + sum_list (map sampleValue (take (e - j) (drop j arr))))"
proof (induction "e - j" arbitrary: j s)
  case 0
  then show ?case by (simp add: bandSum.simps)
next
  case (Suc k)
  then have lt: "j < e" and jl: "j < length arr" by simp_all
  have k: "k = e - Suc j" using Suc.hyps(2) by simp
  have step: "bandSum arr j e (Some s) = bandSum arr (Suc j) e (Some (s + sampleValue (arr ! j)))"
    using lt jl by (subst bandSum.simps) (simp add: readAt_def)
  have split: "take (e - j) (drop j arr) = arr ! j # take (e - Suc j) (drop (Suc j) arr)"
    using lt jl by (metis Cons_nth_drop_Suc Suc_diff_Suc take_Suc_Cons)
  show ?case
    using Suc.hyps(1) [OF k] lt Suc.prems(2) by (simp add: step split)
qed

lemma length_bandsLoop: "length (bandsLoop arr n i bs) = length bs"
  by (induction arr n i bs rule: bandsLoop.induct) (subst bandsLoop.simps, simp)

lemma nth_bandsLoop:
  "k < length bs \<Longrightarrow>
   bandsLoop arr n i bs ! k = (if i \<le> k \<and> k < n then bandValue arr n k else bs ! k)"
proof (induction arr n i bs rule: bandsLoop.induct)
  case (1 arr n i bs)
  show ?case
  proof (cases "i < n")
    case True
    then show ?thesis
      using "1.IH" [OF True] "1.prems"
      by (subst bandsLoop.simps) (auto simp: nth_list_update not_less_eq_eq)
  next
    case False
    then show ?thesis by (subst bandsLoop.simps) auto
  qed
qed

lemma length_computeBands: "length (computeBands arr n) = unat n"
  by (simp add: computeBands_def length_bandsLoop)

lemma nth_computeBands: "i < unat n \<Longrightarrow> computeBands arr n ! i = bandValue arr (unat n) i"
  by (simp add: computeBands_def nth_bandsLoop)

lemma band_mult_le: "k \<le> n \<Longrightarrow> k * (length arr div n) \<le> length (arr :: 'a list)"
proof -
  assume "k \<le> n"
  then have "k * (length arr div n) \<le> n * (length arr div n)" by simp
  also have "\<dots> \<le> length arr" by simp
  finally show ?thesis .
qed

lemma bandStart_le_End: "i < n \<Longrightarrow> bandStart arr n i \<le> bandEnd arr n i"
  using band_mult_le [of i n arr] by (auto simp: bandStart_def bandEnd_def bandSize_def)


lemma bandEnd_le_length: "i < n \<Longrightarrow> bandEnd arr n i \<le> length arr"
  using band_mult_le [of "Suc i" n arr] by (auto simp: bandStart_def bandEnd_def bandSize_def)

lemma specGroup_slice:
  "i < n \<Longrightarrow> specGroup arr n i = take (bandEnd arr n i - bandStart arr n i) (drop (bandStart arr n i) arr)"
  by (simp add: specGroup_def bandStart_def bandEnd_def bandSize_def Let_def)

lemma length_specGroup:
  "i < n \<Longrightarrow> length (specGroup arr n i) = bandEnd arr n i - bandStart arr n i"
  using bandEnd_le_length [of i n arr] by (simp add: specGroup_slice)

lemma bandDenominator_nonzero: "bandDenominator arr n i \<noteq> 0"
  by (simp add: bandDenominator_def Let_def)

lemma bandValue_mean:
  assumes "i < n"
  shows "bandValue arr n i =
           Some (if specGroup arr n i = [] then 0 else arithmeticMean (specGroup arr n i))"
proof -
  let ?g = "specGroup arr n i"
  have s: "bandSum arr (bandStart arr n i) (bandEnd arr n i) (Some 0) = Some (sum_list (map sampleValue ?g))"
    using bandSum_in_range [OF bandStart_le_End [OF assms] bandEnd_le_length [OF assms], where s = 0]
    by (simp add: specGroup_slice [OF assms])
  have len: "length ?g = bandEnd arr n i - bandStart arr n i"
    by (rule length_specGroup [OF assms])
  have le: "bandStart arr n i \<le> bandEnd arr n i" by (rule bandStart_le_End [OF assms])
  show ?thesis
  proof (cases "?g = []")
    case True
    then show ?thesis by (simp add: bandValue_def s)
  next
    case False
    then have "0 < length ?g" by simp
    then have "bandDenominator arr n i = int (length ?g)"
      using le len by (simp add: bandDenominator_def Let_def)
    then show ?thesis using False by (simp add: bandValue_def s arithmeticMean_def)
  qed
qed

lemma concat_take_groups:
  "concat (map (\<lambda>i. take sz (drop (i * sz) arr)) [0..<k]) = take (k * sz) arr"
proof (induction k)
  case 0
  then show ?case by simp
next
  case (Suc k)
  have "take (k * sz) arr @ take sz (drop (k * sz) arr) = take (k * sz + sz) arr"
    by (simp add: take_add)
  then show ?case using Suc by (simp add: add.commute)
qed

lemma concat_specGroup:
  assumes "0 < n"
  shows "concat (map (specGroup arr n) [0..<n]) = arr"
proof -
  obtain m where n: "n = Suc m" using assms by (cases n) auto
  let ?sz = "length arr div n"
  have a: "map (specGroup arr n) [0..<m] = map (\<lambda>i. take ?sz (drop (i * ?sz) arr)) [0..<m]"
    by (rule map_cong) (auto simp: specGroup_def n Let_def)
  have b: "specGroup arr n m = drop (m * ?sz) arr"
    by (simp add: specGroup_def n Let_def)
  have "concat (map (specGroup arr n) [0..<n]) = concat (map (specGroup arr n) [0..<m]) @ specGroup arr n m"
    by (simp add: n)
  also have "\<dots> = take (m * ?sz) arr @ drop (m * ?sz) arr"
    by (simp only: a b concat_take_groups)
  finally show ?thesis by simp
qed

lemma sum_length_concat: "(\<Sum>i<n. length (f i)) = length (concat (map f [0..<n]))"
  by (induction n) (simp_all)


subsection \<open>computeBands: the bands and their groups\<close>


text \<open>
  C1. For every spectrum of length \<open>N\<close> and every positive band count, \<open>computeBands\<close>
  returns exactly \<open>bandCount\<close> values. The groups of the specification (contiguous, of size
  \<open>N div bandCount\<close>, the last one running to the end of the spectrum) concatenate to the
  spectrum, so every sample is counted once and the group sizes add up to \<open>N\<close>. Each band
  is the arithmetic mean of its group; a group with no member (possible only when
  \<open>bandCount > N\<close>) has no mean, and its band is \<open>0\<close>. No band is \<open>NaN\<close>: every index the
  loops read is inside the spectrum.
\<close>

theorem computeBands_partition:
  "0 < bandCount \<Longrightarrow>
     length (computeBands spectrum bandCount) = unat bandCount
   \<and> concat (map (specGroup spectrum (unat bandCount)) [0..<unat bandCount]) = spectrum
   \<and> (\<forall>i<unat bandCount - 1.
         length (specGroup spectrum (unat bandCount) i) = length spectrum div unat bandCount)
   \<and> (unat bandCount - 1) * (length spectrum div unat bandCount)
         + length (specGroup spectrum (unat bandCount) (unat bandCount - 1)) = length spectrum
   \<and> (\<forall>i<unat bandCount. computeBands spectrum bandCount ! i =
          Some (if specGroup spectrum (unat bandCount) i = [] then 0
                else arithmeticMean (specGroup spectrum (unat bandCount) i)))
   \<and> (\<Sum>i<unat bandCount. length (specGroup spectrum (unat bandCount) i)) = length spectrum"
proof -
  let ?n = "unat bandCount"
  assume "0 < bandCount"
  then have pos: "0 < ?n" by (simp add: word_less_nat_alt)
  have l: "length (computeBands spectrum bandCount) = ?n"
    by (rule length_computeBands)
  have c: "concat (map (specGroup spectrum ?n) [0..<?n]) = spectrum"
    by (rule concat_specGroup [OF pos])
  have g: "\<forall>i<?n - 1. length (specGroup spectrum ?n i) = length spectrum div ?n"
  proof (intro allI impI)
    fix i assume i: "i < ?n - 1"
    then have "Suc i \<le> ?n" by simp
    from band_mult_le [OF this, of spectrum] i
    show "length (specGroup spectrum ?n i) = length spectrum div ?n"
      by (simp add: specGroup_def Let_def)
  qed
  have r: "(?n - 1) * (length spectrum div ?n) + length (specGroup spectrum ?n (?n - 1))
         = length spectrum"
    using band_mult_le [of "?n - 1" ?n spectrum]
    by (simp add: specGroup_def Let_def)
  have m: "\<forall>i<?n. computeBands spectrum bandCount ! i =
          Some (if specGroup spectrum ?n i = [] then 0
                else arithmeticMean (specGroup spectrum ?n i))"
    by (simp add: nth_computeBands bandValue_mean)
  have s: "(\<Sum>i<?n. length (specGroup spectrum ?n i)) = length spectrum"
    by (simp only: sum_length_concat c)
  from l c g r m s show ?thesis by blast
qed

theorem computeBands_partition_witness:
  "(0 :: 32 word) < 2 \<and> length (computeBands [10, 20, 60] 2) = unat (2 :: 32 word)
   \<and> concat (map (specGroup [10, 20, 60] (unat (2 :: 32 word))) [0..<unat (2 :: 32 word)]) = [10, 20, 60]"
proof -
  have pos: "(0 :: 32 word) < 2" by simp
  from computeBands_partition [OF pos, of "[10, 20, 60]"] pos show ?thesis by blast
qed

text \<open>
  C2, as stated, fails: with one sample of value 10 and two bands, the first band is empty
  and falls back to \<open>0\<close>, but the last band runs to the end of the spectrum and is the mean
  of the whole spectrum, \<open>10\<close>.
\<close>

theorem computeBands_last_band_counterexample:
  "length [10 :: 8 word] < unat (2 :: 32 word) \<and> computeBands [10] 2 = [Some 0, Some 10]"
  by code_simp

text \<open>
  C2, amended. For every band count greater than the length of the spectrum,
  \<open>computeBands\<close> divides by no zero (the denominator of every band is non-zero) and
  returns a number for every band; every band but the last falls back to \<open>0\<close>; the last
  band, whose group is the whole spectrum, is the mean of the whole spectrum (\<open>0\<close> when the
  spectrum is empty).
\<close>

theorem computeBands_degenerate:
  "length spectrum < unat bandCount \<Longrightarrow>
     length (computeBands spectrum bandCount) = unat bandCount
   \<and> (\<forall>i<unat bandCount. bandDenominator spectrum (unat bandCount) i \<noteq> 0)
   \<and> (\<forall>i<unat bandCount. \<exists>r. computeBands spectrum bandCount ! i = Some r)
   \<and> (\<forall>i<unat bandCount - 1. computeBands spectrum bandCount ! i = Some 0)
   \<and> computeBands spectrum bandCount ! (unat bandCount - 1) =
        Some (if spectrum = [] then 0 else arithmeticMean spectrum)"
proof -
  let ?n = "unat bandCount"
  assume big: "length spectrum < ?n"
  then have pos: "0 < ?n" by simp
  have z: "length spectrum div ?n = 0" using big by simp
  have e: "\<forall>i<?n - 1. specGroup spectrum ?n i = []"
    by (simp add: specGroup_def Let_def z)
  have w: "specGroup spectrum ?n (?n - 1) = spectrum"
    by (simp add: specGroup_def Let_def z)
  have a: "\<forall>i<?n. computeBands spectrum bandCount ! i =
          Some (if specGroup spectrum ?n i = [] then 0
                else arithmeticMean (specGroup spectrum ?n i))"
    by (simp add: nth_computeBands bandValue_mean)
  have "\<forall>i<?n - 1. computeBands spectrum bandCount ! i = Some 0"
    using a e by simp
  moreover have "computeBands spectrum bandCount ! (?n - 1) =
        Some (if spectrum = [] then 0 else arithmeticMean spectrum)"
    using a pos w by simp
  moreover have "\<forall>i<?n. \<exists>r. computeBands spectrum bandCount ! i = Some r"
    using a by simp
  ultimately show ?thesis
    by (simp add: length_computeBands bandDenominator_nonzero)
qed

theorem computeBands_degenerate_witness:
  "length [10 :: 8 word] < unat (2 :: 32 word)
   \<and> computeBands [10] 2 ! (unat (2 :: 32 word) - 1) =
        Some (if [10 :: 8 word] = [] then 0 else arithmeticMean [10])"
proof -
  have big: "length [10 :: 8 word] < unat (2 :: 32 word)" by simp
  from computeBands_degenerate [OF big] big show ?thesis by blast
qed


subsection \<open>computeRms and hash01\<close>


lemma sum_list_drop_step:
  "i < length xs \<Longrightarrow>
   sum_list (map f (drop i xs)) = (f (xs ! i) :: real) + sum_list (map f (drop (Suc i) xs))"
  by (metis Cons_nth_drop_Suc list.simps(9) sum_list.Cons)

lemma sumSquaresLoop_eq:
  "sumSquaresLoop arr i ss = ss + sum_list (map (\<lambda>s. (centred s)\<^sup>2) (drop i arr))"
proof (induction arr i ss rule: sumSquaresLoop.induct)
  case (1 arr i ss)
  show ?case
  proof (cases "i < length arr")
    case True
    have "sumSquaresLoop arr i ss = sumSquaresLoop arr (Suc i) (ss + (centred (arr ! i))\<^sup>2)"
      using True by (subst sumSquaresLoop.simps) (simp add: centred_def power2_eq_square Let_def)
    also have "\<dots> = ss + (centred (arr ! i))\<^sup>2 + sum_list (map (\<lambda>s. (centred s)\<^sup>2) (drop (Suc i) arr))"
      using "1.IH" [OF True refl] by (simp add: centred_def power2_eq_square)
    finally show ?thesis
      by (simp add: sum_list_drop_step [OF True])
  next
    case False
    then show ?thesis by (subst sumSquaresLoop.simps) simp
  qed
qed

lemma computeRms_nonempty: "arr \<noteq> [] \<Longrightarrow> computeRms arr = Some (specRms arr)"
  by (simp add: computeRms_def specRms_def sumSquaresLoop_eq)

lemma computeRms_empty: "computeRms [] = None"
  by (simp add: computeRms_def)

lemma sampleValue_range: "0 \<le> sampleValue s \<and> sampleValue s \<le> 255"
proof -
  have "unat s < 2 ^ LENGTH(8)" by (rule unsigned_less)
  then have "unat s \<le> 255" by simp
  then have "real (unat s) \<le> real 255" by (simp only: of_nat_le_iff)
  moreover have "0 \<le> real (unat s)" by (rule of_nat_0_le_iff)
  ultimately show ?thesis unfolding sampleValue_def by simp
qed

lemma centred_sq_le_1: "(centred s)\<^sup>2 \<le> 1"
proof -
  have "\<bar>centred s\<bar> \<le> 1" using sampleValue_range [of s] by (simp add: centred_def abs_le_iff)
  then show ?thesis by (simp add: abs_square_le_1)
qed

lemma sum_list_upper: "(\<forall>x\<in>set xs. f x \<le> (c::real)) \<Longrightarrow> sum_list (map f xs) \<le> c * real (length xs)"
  by (induction xs) (auto simp: algebra_simps)

lemma sum_list_lower: "(\<forall>x\<in>set xs. (c::real) \<le> f x) \<Longrightarrow> c * real (length xs) \<le> sum_list (map f xs)"
  by (induction xs) (auto simp: algebra_simps)

lemma specRms_range: "0 \<le> specRms arr \<and> specRms arr \<le> 1"
proof (cases "arr = []")
  case True
  then show ?thesis by (simp add: specRms_def)
next
  case False
  let ?S = "sum_list (map (\<lambda>s. (centred s)\<^sup>2) arr)"
  have "0 * real (length arr) \<le> ?S" by (rule sum_list_lower) simp
  then have lo: "0 \<le> ?S" by simp
  have "?S \<le> 1 * real (length arr)" by (rule sum_list_upper) (simp add: centred_sq_le_1)
  then have hi: "?S / real (length arr) \<le> 1" using False by (simp add: divide_le_eq)
  show ?thesis using lo hi by (simp add: specRms_def)
qed

lemma specRms_silence: "specRms (replicate n 128) = 0"
  by (simp add: specRms_def centred_def sampleValue_def sum_list_replicate)

lemma centred_sq_extreme: "s = 0 \<or> s = 255 \<Longrightarrow> (127 / 128)\<^sup>2 \<le> (centred s)\<^sup>2"
  by (auto simp: centred_def sampleValue_def power2_eq_square)

lemma specRms_extremes:
  assumes "arr \<noteq> []" and "\<forall>s\<in>set arr. s = 0 \<or> s = 255"
  shows "127 / 128 \<le> specRms arr"
proof -
  let ?S = "sum_list (map (\<lambda>s. (centred s)\<^sup>2) arr)"
  have "(127 / 128)\<^sup>2 * real (length arr) \<le> ?S"
    by (rule sum_list_lower) (use assms(2) centred_sq_extreme in blast)
  then have "(127 / 128)\<^sup>2 \<le> ?S / real (length arr)"
    using assms(1) by (simp add: le_divide_eq)
  then have "sqrt ((127 / 128)\<^sup>2) \<le> sqrt (?S / real (length arr))"
    by (simp only: real_sqrt_le_iff)
  then show ?thesis by (simp add: specRms_def)
qed

lemma alternating_extremes: "\<forall>s\<in>set (alternating n). s = 0 \<or> s = 255"
  by (auto simp: alternating_def)

lemma length_alternating: "length (alternating n) = n"
  by (simp add: alternating_def)

text \<open>
  C3. On every non-empty waveform (its samples are bytes, so all lie in \<open>[0, 255]\<close>)
  \<open>computeRms\<close> returns the root of the mean of the squares of \<open>(s - 128) / 128\<close>, a value
  in \<open>[0, 1]\<close>. On the waveform of the same length whose samples are all \<open>128\<close> it returns
  exactly \<open>0\<close>, and on the one that alternates \<open>0\<close> and \<open>255\<close> it returns a value within
  \<open>1 / 128\<close> of \<open>1\<close>.
\<close>

theorem computeRms_loudness:
  "timeArray \<noteq> [] \<Longrightarrow>
     computeRms timeArray = Some (sqrt (sum_list (map (\<lambda>s. ((sampleValue s - 128) / 128)\<^sup>2) timeArray) / real (length timeArray)))
   \<and> (\<exists>r. computeRms timeArray = Some r \<and> 0 \<le> r \<and> r \<le> 1)
   \<and> computeRms (replicate (length timeArray) 128) = Some 0
   \<and> (\<exists>r. computeRms (alternating (length timeArray)) = Some r \<and> 127 / 128 \<le> r \<and> r \<le> 1)"
proof -
  assume ne: "timeArray \<noteq> []"
  let ?n = "length timeArray"
  have n: "0 < ?n" using ne by simp
  have a: "computeRms timeArray = Some (sqrt (sum_list (map (\<lambda>s. ((sampleValue s - 128) / 128)\<^sup>2) timeArray) / real ?n))"
    using computeRms_nonempty [OF ne] by (simp add: specRms_def centred_def)
  have b: "\<exists>r. computeRms timeArray = Some r \<and> 0 \<le> r \<and> r \<le> 1"
    using computeRms_nonempty [OF ne] specRms_range [of timeArray] by simp
  have "replicate ?n (128 :: 8 word) \<noteq> []" using n by simp
  then have c: "computeRms (replicate ?n 128) = Some 0"
    by (simp add: computeRms_nonempty specRms_silence)
  have ane: "alternating ?n \<noteq> []" using n length_alternating [of ?n] by auto
  have d: "\<exists>r. computeRms (alternating ?n) = Some r \<and> 127 / 128 \<le> r \<and> r \<le> 1"
    using computeRms_nonempty [OF ane] specRms_extremes [OF ane alternating_extremes]
      specRms_range [of "alternating ?n"] by simp
  from a b c d show ?thesis by blast
qed

theorem computeRms_loudness_witness:
  "[0, 255 :: 8 word] \<noteq> [] \<and> (\<exists>r. computeRms [0, 255] = Some r \<and> 0 \<le> r \<and> r \<le> 1)"
proof -
  have ne: "[0, 255 :: 8 word] \<noteq> []" by simp
  from computeRms_loudness [OF ne] ne show ?thesis by blast
qed

text \<open>
  C9. On a waveform with at least one sample the divisor of \<open>computeRms\<close>, the length of
  the waveform, is not zero and the result is a number that is not negative. The divisor
  is zero on the empty waveform only, and that is the only input on which the result is
  \<open>NaN\<close>.
\<close>

theorem computeRms_defined:
  "(timeArray \<noteq> [] \<longrightarrow> real (length timeArray) \<noteq> 0 \<and> (\<exists>r. computeRms timeArray = Some r \<and> 0 \<le> r))
   \<and> (real (length timeArray) = 0 \<longleftrightarrow> timeArray = [])
   \<and> (computeRms timeArray = None \<longleftrightarrow> timeArray = [])"
proof -
  have "timeArray \<noteq> [] \<longrightarrow> (\<exists>r. computeRms timeArray = Some r \<and> 0 \<le> r)"
    using computeRms_nonempty [of timeArray] specRms_range [of timeArray] by simp
  moreover have "computeRms timeArray = None \<longleftrightarrow> timeArray = []"
    by (cases "timeArray = []") (simp_all add: computeRms_nonempty computeRms_empty)
  ultimately show ?thesis by simp
qed

theorem computeRms_defined_witness:
  "[128 :: 8 word] \<noteq> [] \<and> (\<exists>r. computeRms [128] = Some r \<and> 0 \<le> r) \<and> computeRms [128] \<noteq> None"
proof -
  have ne: "[128 :: 8 word] \<noteq> []" by simp
  from computeRms_defined [of "[128]"] ne show ?thesis by blast
qed





subsection \<open>Interpolation, clamping and the presence step\<close>


lemma clamp_range: "mn \<le> mx \<Longrightarrow> mn \<le> clamp v mn mx \<and> clamp v mn mx \<le> mx"
  by (simp add: clamp_def)

lemma lerp_convex: "lerp a b t = (1 - t) * a + t * b"
  by (simp add: lerp_def algebra_simps)

lemma lerp_between:
  assumes "0 \<le> t" "t \<le> 1" "lo \<le> a" "a \<le> hi" "lo \<le> b" "b \<le> hi"
  shows "lo \<le> lerp a b t \<and> lerp a b t \<le> hi"
proof -
  have t1: "0 \<le> 1 - t" using assms(2) by simp
  have "(1 - t) * lo + t * lo \<le> (1 - t) * a + t * b"
    by (intro add_mono mult_left_mono assms t1)
  moreover have "(1 - t) * a + t * b \<le> (1 - t) * hi + t * hi"
    by (intro add_mono mult_left_mono assms t1)
  ultimately show ?thesis by (simp add: lerp_convex algebra_simps)
qed

lemma lerp_abs_bound:
  assumes "0 \<le> t" "t \<le> 1" "\<bar>a\<bar> \<le> B" "\<bar>b\<bar> \<le> B"
  shows "\<bar>lerp a b t\<bar> \<le> B"
  using lerp_between [OF assms(1,2), of "- B" a B b] assms(3,4) by (simp add: abs_le_iff)

lemma easeFactor_range: "0.03 \<le> easeFactor mobile smooth loud \<and> easeFactor mobile smooth loud \<le> 0.35"
  unfolding easeFactor_def Let_def by (rule clamp_range) simp

lemma exitSpeed_range: "0 < exitSpeed mobile \<and> exitSpeed mobile < 1"
  by (simp add: exitSpeed_def)

lemma enterSpeed_range: "0 < enterSpeed mobile \<and> enterSpeed mobile < 1"
  by (simp add: enterSpeed_def)


lemma presenceStep_range:
  assumes "0 \<le> p" "p \<le> 1"
  shows "0 \<le> presenceStep mobile h p \<and> presenceStep mobile h p \<le> 1"
proof -
  have r: "0 \<le> lerp p tg sp \<and> lerp p tg sp \<le> 1"
    if "0 \<le> sp" "sp \<le> 1" "0 \<le> tg" "tg \<le> 1" for tg sp
    by (rule lerp_between [OF that(1,2) assms that(3,4)])
  show ?thesis
    unfolding presenceStep_def Let_def
    using exitSpeed_range [of mobile] enterSpeed_range [of mobile]
    by (intro r) auto
qed

subsection \<open>The segment loop in closed form\<close>

lemma length_fst_segmentLoop:
  "length (fst (segmentLoop v radius feats ease i (amps, ds))) = length amps"
proof (induction v radius feats ease i "(amps, ds)" arbitrary: amps ds rule: segmentLoop.induct)
  case (1 v radius feats ease i amps ds)
  show ?case
  proof (cases "i < segments (scatterState v)")
    case True
    show ?thesis
      using "1.hyps" [OF True refl refl refl refl]
      by (subst segmentLoop.simps) (simp add: True Let_def)
  next
    case False
    then show ?thesis by (subst segmentLoop.simps) simp
  qed
qed

lemma nth_fst_segmentLoop:
  "k < length amps \<Longrightarrow>
   fst (segmentLoop v radius feats ease i (amps, ds)) ! k =
     (if i \<le> k \<and> k < segments (scatterState v)
      then lerp (amps ! k) (segmentTarget v radius feats k) ease
      else amps ! k)"
proof (induction v radius feats ease i "(amps, ds)" arbitrary: amps ds rule: segmentLoop.induct)
  case (1 v radius feats ease i amps ds)
  let ?n = "segments (scatterState v)"
  let ?amps' = "amps[i := lerp (amps ! i) (segmentTarget v radius feats i) ease]"
  show ?case
  proof (cases "i < ?n")
    case True
    let ?ds' = "ds @ map (dotAt v (segmentGeometryOf v radius (featuresLoudness feats) i (?amps' ! i))
                          (featuresLoudness feats) i) [0..<dotCount]"
    have step: "segmentLoop v radius feats ease i (amps, ds) =
                segmentLoop v radius feats ease (Suc i) (?amps', ?ds')"
      by (subst segmentLoop.simps) (simp add: True Let_def)
    have ih: "fst (segmentLoop v radius feats ease (Suc i) (?amps', ?ds')) ! k =
                (if Suc i \<le> k \<and> k < ?n
                 then lerp (?amps' ! k) (segmentTarget v radius feats k) ease
                 else ?amps' ! k)"
      using "1.hyps" [OF True refl refl refl refl] "1.prems" by simp
    show ?thesis
    proof (cases "k = i")
      case True
      with ih step \<open>i < ?n\<close> "1.prems" show ?thesis by simp
    next
      case False
      with ih step "1.prems" show ?thesis by (auto simp: nth_list_update)
    qed
  next
    case False
    then show ?thesis by (subst segmentLoop.simps) auto
  qed
qed

lemma snd_segmentLoop:
  "segments (scatterState v) \<le> length amps \<Longrightarrow>
   snd (segmentLoop v radius feats ease i (amps, ds)) =
     ds @ concat (map (\<lambda>k. map (dotAt v (segmentGeometryOf v radius (featuresLoudness feats) k
                                       (lerp (amps ! k) (segmentTarget v radius feats k) ease))
                                    (featuresLoudness feats) k) [0..<dotCount])
                  [i..<segments (scatterState v)])"
proof (induction v radius feats ease i "(amps, ds)" arbitrary: amps ds rule: segmentLoop.induct)
  case (1 v radius feats ease i amps ds)
  let ?n = "segments (scatterState v)"
  let ?amps' = "amps[i := lerp (amps ! i) (segmentTarget v radius feats i) ease]"
  let ?F = "\<lambda>A k. map (dotAt v (segmentGeometryOf v radius (featuresLoudness feats) k
                                       (lerp (A ! k) (segmentTarget v radius feats k) ease))
                                    (featuresLoudness feats) k) [0..<dotCount]"
  show ?case
  proof (cases "i < ?n")
    case True
    have il: "i < length amps" using True "1.prems" by simp
    let ?ds' = "ds @ map (dotAt v (segmentGeometryOf v radius (featuresLoudness feats) i (?amps' ! i))
                          (featuresLoudness feats) i) [0..<dotCount]"
    have step: "segmentLoop v radius feats ease i (amps, ds) =
                segmentLoop v radius feats ease (Suc i) (?amps', ?ds')"
      by (subst segmentLoop.simps) (simp add: True Let_def)
    have ih: "snd (segmentLoop v radius feats ease (Suc i) (?amps', ?ds')) =
                ?ds' @ concat (map (?F ?amps') [Suc i..<?n])"
      using "1.hyps" [OF True refl refl refl refl] "1.prems" by simp
    have same: "map (?F ?amps') [Suc i..<?n] = map (?F amps) [Suc i..<?n]"
      by (rule map_cong) simp_all
    have here: "?ds' = ds @ ?F amps i"
      using il by simp
    have up: "[i..<?n] = i # [Suc i..<?n]"
      using True by (rule upt_conv_Cons)
    have "snd (segmentLoop v radius feats ease i (amps, ds)) =
            ?ds' @ concat (map (?F ?amps') [Suc i..<?n])"
      by (simp only: step ih)
    also have "\<dots> = (ds @ ?F amps i) @ concat (map (?F amps) [Suc i..<?n])"
      by (simp only: same here)
    also have "\<dots> = ds @ concat (map (?F amps) (i # [Suc i..<?n]))"
      by simp
    finally show ?thesis
      by (simp only: up [symmetric])
  next
    case False
    then show ?thesis by (subst segmentLoop.simps) simp
  qed
qed


subsection \<open>What one frame does to the state\<close>

lemma drawFrame_isMobile: "isMobile (fst (drawFrame v inp)) = isMobile v"
  by (simp add: drawFrame_def drawScatterRing_def drawGlow_def Let_def)

lemma drawFrame_sensitivity: "sensitivity (fst (drawFrame v inp)) = sensitivity v"
  by (simp add: drawFrame_def drawScatterRing_def drawGlow_def Let_def)

lemma drawFrame_segments: "segments (scatterState (fst (drawFrame v inp))) = segments (scatterState v)"
  by (simp add: drawFrame_def drawScatterRing_def drawGlow_def Let_def)

lemma drawFrame_audioPresence:
  "audioPresence (scatterState (fst (drawFrame v inp))) =
     presenceStep (isMobile v) (hasAudioRaw (isMobile v) (audioFeatures inp)) (audioPresence (scatterState v))"
  by (simp add: drawFrame_def drawScatterRing_def drawGlow_def Let_def)



lemma drawFrame_lineAmplitude:
  "lineAmplitude (scatterState (fst (drawFrame v inp))) =
     fst (segmentLoop (ringView v inp) (ringRadius (isMobile v) inp) (audioFeatures inp)
            (easeFactor (isMobile v) (smoothing v) (featuresLoudness (audioFeatures inp))) 0
            (lineAmplitude (scatterState v), []))"
  by (simp add: ringView_def ringRadius_def drawFrame_def drawScatterRing_def drawGlow_def Let_def)


subsection \<open>Bounds kept by a frame\<close>


lemma ringView_fields:
  "isMobile (ringView v inp) = isMobile v"
  "sensitivity (ringView v inp) = sensitivity v"
  "segments (scatterState (ringView v inp)) = segments (scatterState v)"
  "audioPresence (scatterState (ringView v inp)) = audioPresence (scatterState (fst (drawFrame v inp)))"
  by (simp_all add: ringView_def drawFrame_isMobile drawFrame_sensitivity drawFrame_segments)

lemma segmentSample_range: "0 \<le> segmentSample feats n i \<and> segmentSample feats n i \<le> 1"
proof -
  have "0 \<le> sampleValue s / 255 \<and> sampleValue s / 255 \<le> 1" for s
    using sampleValue_range [of s] by simp
  then show ?thesis
    by (simp add: segmentSample_def Let_def split: option.split)
qed

lemma segmentTarget_bound:
  assumes p: "0 \<le> audioPresence (scatterState v)" "audioPresence (scatterState v) \<le> 1"
  shows "\<bar>segmentTarget v radius feats i\<bar>
           \<le> \<bar>sensitivity v\<bar> * \<bar>maxAmplitude radius\<bar> * (if isMobile v then 1.3 else 1)"
proof -
  let ?m = "(segmentSample feats (segments (scatterState v)) i - 0.5) * 2"
  let ?b = "if isMobile v then 1.3 else 1 :: real"
  let ?K = "\<bar>sensitivity v\<bar> * \<bar>maxAmplitude radius\<bar> * ?b"
  have m: "\<bar>?m\<bar> \<le> 1"
    using segmentSample_range [of feats "segments (scatterState v)" i] by (simp add: abs_le_iff)
  have b: "0 \<le> ?b" by simp
  have K: "0 \<le> ?K" by simp
  have "\<bar>segmentTarget v radius feats i\<bar> = (\<bar>?m\<bar> * audioPresence (scatterState v)) * ?K"
    using p(1) by (simp add: segmentTarget_def Let_def abs_mult)
  also have "\<dots> \<le> (1 * 1) * ?K"
    by (intro mult_right_mono mult_mono m p K) simp_all
  finally show ?thesis by simp
qed

lemma drawFrame_bounded:
  assumes inv: "bounded B v"
    and K: "\<bar>sensitivity v\<bar> * \<bar>maxAmplitude (ringRadius (isMobile v) inp)\<bar>
              * (if isMobile v then 1.3 else 1) \<le> B"
  shows "bounded B (fst (drawFrame v inp))"
proof -
  let ?v' = "fst (drawFrame v inp)"
  let ?V = "ringView v inp"
  let ?r = "ringRadius (isMobile v) inp"
  let ?e = "easeFactor (isMobile v) (smoothing v) (featuresLoudness (audioFeatures inp))"
  let ?old = "lineAmplitude (scatterState v)"
  let ?new = "lineAmplitude (scatterState ?v')"
  have p: "0 \<le> audioPresence (scatterState ?v')" "audioPresence (scatterState ?v') \<le> 1"
    using inv presenceStep_range [of "audioPresence (scatterState v)"]
    by (simp_all add: bounded_def list_all_iff drawFrame_audioPresence)
  have e: "0 \<le> ?e" "?e \<le> 1"
    using easeFactor_range [of "isMobile v" "smoothing v" "featuresLoudness (audioFeatures inp)"]
    by simp_all
  have t: "\<bar>segmentTarget ?V ?r (audioFeatures inp) k\<bar> \<le> B" for k
    using segmentTarget_bound [of ?V ?r "audioFeatures inp" k] p K
    by (simp add: ringView_fields)
  have len: "length ?new = length ?old"
    by (simp add: drawFrame_lineAmplitude length_fst_segmentLoop)
  have "\<bar>a\<bar> \<le> B" if "a \<in> set ?new" for a
  proof -
    from that obtain k where k: "k < length ?new" "a = ?new ! k"
      by (auto simp: in_set_conv_nth)
    then have kl: "k < length ?old" using len by simp
    then have o: "\<bar>?old ! k\<bar> \<le> B" using inv by (simp add: bounded_def list_all_iff)
    have "a = lerp (?old ! k) (segmentTarget ?V ?r (audioFeatures inp) k) ?e \<or> a = ?old ! k"
      using k(2) nth_fst_segmentLoop [OF kl, of ?V ?r "audioFeatures inp" ?e 0 "[]"]
      by (simp add: drawFrame_lineAmplitude split: if_splits)
    then show ?thesis
      using lerp_abs_bound [OF e o t [of k]] o by auto
  qed
  then show ?thesis using p by (simp add: bounded_def list_all_iff)
qed

lemma runFrames_isMobile: "isMobile (runFrames v inps) = isMobile v"
  by (induction inps arbitrary: v) (simp_all add: drawFrame_isMobile)

lemma runFrames_sensitivity: "sensitivity (runFrames v inps) = sensitivity v"
  by (induction inps arbitrary: v) (simp_all add: drawFrame_sensitivity)

lemma runFrames_snoc: "runFrames v (inps @ [inp]) = fst (drawFrame (runFrames v inps) inp)"
  by (induction inps arbitrary: v) simp_all

lemma runFrames_bounded:
  "bounded B v \<Longrightarrow>
   (\<forall>inp\<in>set inps. \<bar>sensitivity v\<bar> * \<bar>maxAmplitude (ringRadius (isMobile v) inp)\<bar>
              * (if isMobile v then 1.3 else 1) \<le> B) \<Longrightarrow>
   bounded B (runFrames v inps)"
proof (induction inps arbitrary: v)
  case Nil
  then show ?case by simp
next
  case (Cons inp inps)
  have "bounded B (fst (drawFrame v inp))"
    using Cons.prems by (intro drawFrame_bounded) simp_all
  then show ?case
    using Cons.prems Cons.IH [of "fst (drawFrame v inp)"]
    by (simp add: drawFrame_isMobile drawFrame_sensitivity)
qed

lemma fresh_bounded:
  "0 \<le> B \<Longrightarrow> scatterState v = scatterState (createVisualizer mobile t0) \<Longrightarrow> bounded B v"
  by (simp add: bounded_def list_all_iff createVisualizer_def Let_def)


subsection \<open>Decay of the presence in silence\<close>







subsection \<open>The dots of a frame\<close>


lemma drawFrame_smoothing: "smoothing (fst (drawFrame v inp)) = smoothing v"
  by (simp add: drawFrame_def drawScatterRing_def drawGlow_def Let_def)

lemma drawFrame_length_lineAmplitude:
  "length (lineAmplitude (scatterState (fst (drawFrame v inp)))) = length (lineAmplitude (scatterState v))"
  by (simp add: drawFrame_lineAmplitude length_fst_segmentLoop)

text \<open>The amplitude array keeps the length it is constructed with.\<close>

lemma createVisualizer_amplitudes:
  "length (lineAmplitude (scatterState (createVisualizer mobile startTime)))
     = segments (scatterState (createVisualizer mobile startTime))"
  by (simp add: createVisualizer_def Let_def)

lemma drawFrame_amplitudes:
  "length (lineAmplitude (scatterState v)) = segments (scatterState v) \<Longrightarrow>
   length (lineAmplitude (scatterState (fst (drawFrame v inp))))
     = segments (scatterState (fst (drawFrame v inp)))"
  by (simp add: drawFrame_length_lineAmplitude drawFrame_segments)

lemma drawFrame_lineAmplitude_nth:
  assumes "k < segments (scatterState v)" "k < length (lineAmplitude (scatterState v))"
  shows "lineAmplitude (scatterState (fst (drawFrame v inp))) ! k =
           lerp (lineAmplitude (scatterState v) ! k)
                (segmentTarget (ringView v inp) (ringRadius (isMobile v) inp) (audioFeatures inp) k)
                (easeFactor (isMobile v) (smoothing v) (featuresLoudness (audioFeatures inp)))"
  using assms by (simp add: drawFrame_lineAmplitude nth_fst_segmentLoop ringView_fields)

lemma drawFrame_dots:
  assumes "segments (scatterState v) \<le> length (lineAmplitude (scatterState v))"
  shows "dots (snd (drawFrame v inp)) =
           concat (map (\<lambda>i. map (dotAt (ringView v inp)
                                  (segmentGeometryOf (ringView v inp) (ringRadius (isMobile v) inp)
                                     (featuresLoudness (audioFeatures inp)) i
                                     (lineAmplitude (scatterState (fst (drawFrame v inp))) ! i))
                                  (featuresLoudness (audioFeatures inp)) i) [0..<dotCount])
                       [0..<segments (scatterState v)])"
proof -
  let ?V = "ringView v inp"
  let ?r = "ringRadius (isMobile v) inp"
  let ?f = "audioFeatures inp"
  let ?e = "easeFactor (isMobile v) (smoothing v) (featuresLoudness ?f)"
  let ?old = "lineAmplitude (scatterState v)"
  have d: "dots (snd (drawFrame v inp)) = snd (segmentLoop ?V ?r ?f ?e 0 (?old, []))"
    by (simp add: ringView_def ringRadius_def drawFrame_def drawScatterRing_def drawGlow_def Let_def)
  have n: "segments (scatterState ?V) = segments (scatterState v)"
    by (simp add: ringView_fields)
  have s: "snd (segmentLoop ?V ?r ?f ?e 0 (?old, [])) =
        [] @ concat (map (\<lambda>k. map (dotAt ?V (segmentGeometryOf ?V ?r (featuresLoudness ?f) k
                                       (lerp (?old ! k) (segmentTarget ?V ?r ?f k) ?e))
                                    (featuresLoudness ?f) k) [0..<dotCount])
                  [0..<segments (scatterState ?V)])"
    by (rule snd_segmentLoop) (simp add: n assms)
  have c: "map (\<lambda>k. map (dotAt ?V (segmentGeometryOf ?V ?r (featuresLoudness ?f) k
                                       (lerp (?old ! k) (segmentTarget ?V ?r ?f k) ?e))
                                    (featuresLoudness ?f) k) [0..<dotCount])
                  [0..<segments (scatterState v)]
         = map (\<lambda>i. map (dotAt ?V (segmentGeometryOf ?V ?r (featuresLoudness ?f) i
                                     (lineAmplitude (scatterState (fst (drawFrame v inp))) ! i))
                                  (featuresLoudness ?f) i) [0..<dotCount])
                       [0..<segments (scatterState v)]"
    by (rule map_cong) (use assms in \<open>simp_all add: drawFrame_lineAmplitude_nth\<close>)
  show ?thesis by (simp only: d s n c append_Nil)
qed

text \<open>
  C8. The dots a frame draws are, segment by segment and dot by dot, the values of
  \<open>dotAt\<close> on the presence and the amplitudes the frame has just stored. Every dot sits at
  its place along the segment, moved along the segment's axis by the radial displacement
  and across it by the tangential one. The radial displacement is the blend
  \<open>(1 - audioPresence) * idle + audioPresence * audio\<close> of the idle oscillation and the
  audio-driven scatter. The tangential displacement has no idle part: when
  \<open>audioPresence\<close> is \<open>0\<close> it is exactly \<open>0\<close>.
\<close>

theorem dot_displacement_blend:
  assumes "segments (scatterState v) \<le> length (lineAmplitude (scatterState v))"
  shows "dots (snd (drawFrame v inp)) =
           concat (map (\<lambda>i. map (dotAt (ringView v inp)
                                  (segmentGeometryOf (ringView v inp) (ringRadius (isMobile v) inp)
                                     (featuresLoudness (audioFeatures inp)) i
                                     (lineAmplitude (scatterState (fst (drawFrame v inp))) ! i))
                                  (featuresLoudness (audioFeatures inp)) i) [0..<dotCount])
                       [0..<segments (scatterState v)])
       \<and> (\<forall>i d a loud. 
            (let V = ringView v inp;
                 p = audioPresence (scatterState (fst (drawFrame v inp)));
                 g = segmentGeometryOf V (ringRadius (isMobile v) inp) loud i a
             in px (dotAt V g loud i d) = lerp (seg_x0 g) (seg_x1 g) (dotU p i d)
                    + seg_nx g * radialScatter V g i d + seg_tx g * tangentialScatter g i d
              \<and> py (dotAt V g loud i d) = lerp (seg_y0 g) (seg_y1 g) (dotU p i d)
                    + seg_ny g * radialScatter V g i d + seg_ty g * tangentialScatter g i d
              \<and> radialScatter V g i d = (1 - p) * idleRadialOffset V i d + p * audioRadialScatter g i d
              \<and> (p = 0 \<longrightarrow> tangentialScatter g i d = 0)))"
proof -
  have "tangentialScatter (segmentGeometryOf V r loud i a) i d = 0"
    if "audioPresence (scatterState V) = 0" for V r loud i a d
    using that by (simp add: tangentialScatter_def segmentGeometryOf_def Let_def)
  then show ?thesis
    using drawFrame_dots [OF assms, of inp]
    by (simp add: Let_def ringView_fields dotAt_def radialScatter_def lerp_convex)
qed



theorem dot_displacement_blend_witness:
  "segments (scatterState (createVisualizer False 0)) \<le> length (lineAmplitude (scatterState (createVisualizer False 0)))
   \<and> audioPresence (scatterState (fst (drawFrame (createVisualizer False 0) (quietFrame 16)))) = 0
   \<and> tangentialScatter (segmentGeometryOf (ringView (createVisualizer False 0) (quietFrame 16))
          (ringRadius (isMobile (createVisualizer False 0)) (quietFrame 16)) 0 3 0) 3 7 = 0"
proof -
  let ?v = "createVisualizer False 0"
  have wf: "segments (scatterState ?v) \<le> length (lineAmplitude (scatterState ?v))"
    by (simp add: createVisualizer_def Let_def)
  have p: "audioPresence (scatterState (fst (drawFrame ?v (quietFrame 16)))) = 0"
    by (simp add: drawFrame_audioPresence createVisualizer_def Let_def quietFrame_def hasAudioRaw_def
        featuresLoudness_def featuresTime_def audioThreshold_def presenceStep_def lerp_def)
  from dot_displacement_blend [OF wf, of "quietFrame 16"] p
  have "tangentialScatter (segmentGeometryOf (ringView ?v (quietFrame 16))
          (ringRadius (isMobile ?v) (quietFrame 16)) 0 3 0) 3 7 = 0"
    by (simp add: Let_def)
  with wf p show ?thesis by blast
qed

subsection \<open>The animation clock and the setters\<close>





text \<open>
  C7, as stated, fails: a setter does not clamp. A negative radial scatter multiplier is
  stored as it is.
\<close>

theorem setter_stores_negative_counterexample:
  "radialScatterMultiplier (setRadialScatter (createVisualizer False 0) (- 1)) = - 1
   \<and> radialScatterMultiplier (setRadialScatter (createVisualizer False 0) (- 1)) < 0"
  by (simp add: setRadialScatter_def)

lemma clamp_smoothing: "clamp (clamp x 0 3 / 3) 0 1 = clamp (x / 3) 0 1"
  by (simp add: clamp_def max_def min_def)

text \<open>
  C7, amended. Every setter stores the value it is given unchanged and raises nothing. The
  one clamping is where the smoothing value is used: \<open>smoothing / 3\<close> is clamped to
  \<open>[0, 1]\<close>, so a smoothing value outside \<open>[0, 3]\<close> eases like the nearest bound.
\<close>

theorem setters_store_unchanged:
  "sensitivity (setSensitivity v x) = x
   \<and> smoothing (setSmoothing v x) = x
   \<and> idleSpeed (setIdleSpeed v x) = x
   \<and> radialScatterMultiplier (setRadialScatter v x) = x
   \<and> tangentialScatterMultiplier (setTangentialScatter v x) = x
   \<and> easeFactor mobile x loud = easeFactor mobile (clamp x 0 3) loud"
  by (simp add: setSensitivity_def setSmoothing_def setIdleSpeed_def setRadialScatter_def
      setTangentialScatter_def easeFactor_def clamp_smoothing)

subsection \<open>Bounds of the smoothed state\<close>

text \<open>
  C5, amended. Start from a freshly constructed engine, with any configuration, and run any
  frames. If \<open>B\<close> is at least \<open>|sensitivity| * maxAmplitude * mobileSensitivityBoost\<close> on
  every frame, then every entry of \<open>lineAmplitude\<close> stays within \<open>B\<close> in absolute value;
  \<open>audioPresence\<close> stays in \<open>[0, 1]\<close>; and the ease factor stays in \<open>[0.03, 0.35]\<close>.
\<close>

theorem smoothed_state_bounds:
  assumes "scatterState v = scatterState (createVisualizer (isMobile v) startTime)"
    and "0 \<le> B"
    and "\<forall>inp\<in>set inps. \<bar>sensitivity v\<bar> * \<bar>maxAmplitude (ringRadius (isMobile v) inp)\<bar>
              * (if isMobile v then 1.3 else 1) \<le> B"
  shows "(\<forall>a\<in>set (lineAmplitude (scatterState (runFrames v inps))). \<bar>a\<bar> \<le> B)
       \<and> 0 \<le> audioPresence (scatterState (runFrames v inps))
       \<and> audioPresence (scatterState (runFrames v inps)) \<le> 1
       \<and> (\<forall>smooth loud. 0.03 \<le> easeFactor (isMobile v) smooth loud
                         \<and> easeFactor (isMobile v) smooth loud \<le> 0.35)"
proof -
  have "bounded B v" by (rule fresh_bounded [OF assms(2,1)])
  then have "bounded B (runFrames v inps)" using assms(3) by (rule runFrames_bounded)
  then show ?thesis using easeFactor_range by (simp add: bounded_def list_all_iff)
qed



theorem smoothed_state_bounds_witness:
  "scatterState (createVisualizer False 0) = scatterState (createVisualizer (isMobile (createVisualizer False 0)) 0)
   \<and> (0::real) \<le> 400
   \<and> \<bar>sensitivity (createVisualizer False 0)\<bar>
         * \<bar>maxAmplitude (ringRadius (isMobile (createVisualizer False 0)) (loudFrame 16))\<bar>
         * (if isMobile (createVisualizer False 0) then 1.3 else 1) \<le> 400
   \<and> \<bar>sensitivity (createVisualizer False 0)\<bar>
         * \<bar>maxAmplitude (ringRadius (isMobile (createVisualizer False 0)) (loudFrame 32))\<bar>
         * (if isMobile (createVisualizer False 0) then 1.3 else 1) \<le> 400
   \<and> list_all (\<lambda>a. \<bar>a\<bar> \<le> 400)
         (lineAmplitude (scatterState (runFrames (createVisualizer False 0) [loudFrame 16, loudFrame 32])))
   \<and> 0 \<le> audioPresence (scatterState (runFrames (createVisualizer False 0) [loudFrame 16, loudFrame 32]))
   \<and> audioPresence (scatterState (runFrames (createVisualizer False 0) [loudFrame 16, loudFrame 32])) \<le> 1"
proof -
  let ?v = "createVisualizer False 0"
  let ?K = "\<lambda>inp. \<bar>sensitivity ?v\<bar> * \<bar>maxAmplitude (ringRadius (isMobile ?v) inp)\<bar>
           * (if isMobile ?v then 1.3 else 1)"
  have m: "isMobile ?v = False" and s: "sensitivity ?v = 7.2"
    by (simp_all add: createVisualizer_def Let_def)
  have a: "scatterState ?v = scatterState (createVisualizer (isMobile ?v) 0)"
    by (simp add: m)
  have b: "(0::real) \<le> 400" by simp
  have k: "?K (loudFrame 16) \<le> 400" "?K (loudFrame 32) \<le> 400"
    by (simp_all add: m s maxAmplitude_def ringRadius_def baseRadiusOf_def loudFrame_def Let_def)
  then have c: "\<forall>inp\<in>set [loudFrame 16, loudFrame 32]. ?K inp \<le> 400"
    by simp
  from smoothed_state_bounds [OF a b c] a b k show ?thesis
    by (simp only: list_all_iff) blast
qed

subsection \<open>Loud frames\<close>

lemma specRms_replicate: "0 < n \<Longrightarrow> specRms (replicate n s) = \<bar>centred s\<bar>"
  by (simp add: specRms_def sum_list_replicate)

lemma loudFrame_loudness: "featuresLoudness (audioFeatures (loudFrame t)) = 127 / 128"
proof -
  have "computeRms (replicate 1024 255) = Some (127 / 128)"
    by (simp add: computeRms_nonempty specRms_replicate centred_def sampleValue_def)
  then show ?thesis
    by (simp add: loudFrame_def getFeatures_def featuresLoudness_def)
qed

lemma loudFrame_hasAudio: "hasAudioRaw False (audioFeatures (loudFrame t))"
  by (simp add: hasAudioRaw_def loudFrame_loudness audioThreshold_def)

lemma loudFrame_sample0: "segmentSample (audioFeatures (loudFrame t)) 140 0 = 1"
  by (simp add: segmentSample_def featuresTime_def loudFrame_def getFeatures_def Let_def sampleValue_def)

lemma loudFrame_radius: "maxAmplitude (ringRadius False (loudFrame t)) = 1575 / 32"
  by (simp add: maxAmplitude_def ringRadius_def baseRadiusOf_def loudFrame_def Let_def)

lemma loud_ease: "easeFactor False 1.4 (127 / 128) = 60191 / 192000"
  by (simp add: easeFactor_def clamp_def lerp_def Let_def)

lemma loud_step:
  assumes d: "desktopDefault v" and p: "audioPresence (scatterState v) = p" "p < 1"
    and a: "lineAmplitude (scatterState v) ! 0 = a"
  shows "desktopDefault (fst (drawFrame v (loudFrame t)))"
    and "audioPresence (scatterState (fst (drawFrame v (loudFrame t)))) = lerp p 1 0.08"
    and "lineAmplitude (scatterState (fst (drawFrame v (loudFrame t)))) ! 0 =
           lerp a (7.2 * (1575 / 32) * lerp p 1 0.08) (60191 / 192000)"
proof -
  let ?v' = "fst (drawFrame v (loudFrame t))"
  have m: "isMobile v = False" and sens: "sensitivity v = 7.2" and sm: "smoothing v = 1.4"
    and segs: "segments (scatterState v) = 140" and len: "length (lineAmplitude (scatterState v)) = 140"
    using d unfolding desktopDefault_def by blast+
  show "desktopDefault ?v'"
    unfolding desktopDefault_def drawFrame_isMobile drawFrame_sensitivity
        drawFrame_smoothing drawFrame_segments drawFrame_length_lineAmplitude
    using d unfolding desktopDefault_def .
  show p': "audioPresence (scatterState ?v') = lerp p 1 0.08"
    using p by (simp add: drawFrame_audioPresence m loudFrame_hasAudio presenceStep_def enterSpeed_def)
  have t: "segmentTarget (ringView v (loudFrame t)) (ringRadius False (loudFrame t))
             (audioFeatures (loudFrame t)) 0 = 7.2 * (1575 / 32) * lerp p 1 0.08"
    unfolding segmentTarget_def Let_def ringView_fields p' segs sens m loudFrame_sample0 loudFrame_radius
    by simp
  have "lineAmplitude (scatterState ?v') ! 0 =
          lerp (lineAmplitude (scatterState v) ! 0)
               (segmentTarget (ringView v (loudFrame t)) (ringRadius (isMobile v) (loudFrame t))
                  (audioFeatures (loudFrame t)) 0)
               (easeFactor (isMobile v) (smoothing v) (featuresLoudness (audioFeatures (loudFrame t))))"
    by (intro drawFrame_lineAmplitude_nth) (simp_all add: segs len)
  then show "lineAmplitude (scatterState ?v') ! 0 =
           lerp a (7.2 * (1575 / 32) * lerp p 1 0.08) (60191 / 192000)"
    unfolding m sm t a loudFrame_loudness loud_ease .
qed

text \<open>
  C5, as stated, fails: the target of an amplitude is scaled by the sensitivity, \<open>7.2\<close> by
  default, and nothing clamps the stored value. After four loud frames from a fresh desktop
  engine the amplitude of segment \<open>0\<close> is already above \<open>maxAmplitude\<close>.
\<close>

theorem amplitude_exceeds_maxAmplitude_counterexample:
  "maxAmplitude (ringRadius False (loudFrame 16))
     < \<bar>lineAmplitude (scatterState (runFrames (createVisualizer False 0)
            [loudFrame 16, loudFrame 32, loudFrame 48, loudFrame 64])) ! 0\<bar>"
proof -
  let ?v0 = "createVisualizer False 0"
  let ?v1 = "fst (drawFrame ?v0 (loudFrame 16))"
  let ?v2 = "fst (drawFrame ?v1 (loudFrame 32))"
  let ?v3 = "fst (drawFrame ?v2 (loudFrame 48))"
  let ?v4 = "fst (drawFrame ?v3 (loudFrame 64))"
  let ?T = "7.2 * (1575 / 32) :: real"
  let ?e = "60191 / 192000 :: real"
  have d0: "desktopDefault ?v0" and p0: "audioPresence (scatterState ?v0) = 0"
    and a0: "lineAmplitude (scatterState ?v0) ! 0 = 0"
    by (simp_all add: desktopDefault_def createVisualizer_def Let_def)
  note s1 = loud_step [OF d0 p0 _ a0, of 16, simplified]
  have p1: "audioPresence (scatterState ?v1) = 2 / 25"
    using s1(2) by (simp add: lerp_def)
  have a1: "lineAmplitude (scatterState ?v1) ! 0 = lerp 0 (?T * (2 / 25)) ?e"
    using s1(3) by (simp add: lerp_def)
  note s2 = loud_step [OF s1(1) p1 _ a1, of 32, simplified]
  have p2: "audioPresence (scatterState ?v2) = 96 / 625"
    using s2(2) by (simp add: lerp_def)
  have a2: "lineAmplitude (scatterState ?v2) ! 0 = lerp (lerp 0 (?T * (2 / 25)) ?e) (?T * (96 / 625)) ?e"
    using s2(3) by (simp add: lerp_def)
  note s3 = loud_step [OF s2(1) p2 _ a2, of 48, simplified]
  have p3: "audioPresence (scatterState ?v3) = 3458 / 15625"
    using s3(2) by (simp add: lerp_def)
  have a3: "lineAmplitude (scatterState ?v3) ! 0 =
      lerp (lerp (lerp 0 (?T * (2 / 25)) ?e) (?T * (96 / 625)) ?e) (?T * (3458 / 15625)) ?e"
    using s3(3) by (simp add: lerp_def)
  note s4 = loud_step [OF s3(1) p3 _ a3, of 64, simplified]
  have a4: "lineAmplitude (scatterState ?v4) ! 0 =
      lerp (lerp (lerp (lerp 0 (?T * (2 / 25)) ?e) (?T * (96 / 625)) ?e) (?T * (3458 / 15625)) ?e)
           (?T * lerp (3458 / 15625) 1 0.08) ?e"
    using s4(3) by (simp add: lerp_def)
  have "runFrames ?v0 [loudFrame 16, loudFrame 32, loudFrame 48, loudFrame 64] = ?v4"
    by simp
  then show ?thesis
    by (simp only: a4 loudFrame_radius) (simp add: lerp_def)
qed

end
